theory Spec2Isabelle
  imports Main "HOL-Library.Multiset"
begin

section \<open>JavaScript primitives used by the carousel\<close>

text \<open>
  The component is written in TypeScript. The operations of the host language that decide
  its behaviour are embedded first: the remainder operator, \<^verbatim>\<open>Array.prototype.slice\<close>
  with its treatment of negative and missing bounds, and indexing, which yields
  \<^verbatim>\<open>undefined\<close> instead of failing. None of these operations throws.
\<close>

type_synonym jsnum = "int option"
  \<comment> \<open>an integral JavaScript number; \<open>None\<close> is \<^verbatim>\<open>NaN\<close>\<close>

definition js_rem :: "int \<Rightarrow> int \<Rightarrow> jsnum" where
  \<comment> \<open>\<^verbatim>\<open>a % b\<close>: the result takes the sign of the dividend; \<^verbatim>\<open>a % 0\<close> is \<^verbatim>\<open>NaN\<close>\<close>
  "js_rem a b = (if b = 0 then None else Some (sgn a * (\<bar>a\<bar> mod \<bar>b\<bar>)))"

definition js_rem_num :: "jsnum \<Rightarrow> int \<Rightarrow> jsnum" where
  "js_rem_num a b = (case a of None \<Rightarrow> None | Some k \<Rightarrow> js_rem k b)"

definition js_add :: "jsnum \<Rightarrow> int \<Rightarrow> jsnum" where
  "js_add a d = (case a of None \<Rightarrow> None | Some k \<Rightarrow> Some (k + d))"

definition to_integer :: "jsnum \<Rightarrow> int" where
  \<comment> \<open>\<^verbatim>\<open>ToIntegerOrInfinity\<close>: \<^verbatim>\<open>NaN\<close> becomes 0\<close>
  "to_integer a = (case a of None \<Rightarrow> 0 | Some k \<Rightarrow> k)"

definition js_bound :: "nat \<Rightarrow> int \<Rightarrow> nat" where
  \<comment> \<open>a relative bound of \<^verbatim>\<open>slice\<close>: negative counts from the end, clamped to the array\<close>
  "js_bound len k = (if k < 0 then nat (max (int len + k) 0) else nat (min k (int len)))"

definition js_slice :: "'a list \<Rightarrow> int \<Rightarrow> int option \<Rightarrow> 'a list" where
  \<comment> \<open>\<^verbatim>\<open>xs.slice(start, end)\<close>; \<open>None\<close> for an omitted \<^verbatim>\<open>end\<close>\<close>
  "js_slice xs start end =
     (let from = js_bound (length xs) start;
          upto = (case end of None \<Rightarrow> length xs | Some e \<Rightarrow> js_bound (length xs) e)
      in take (upto - from) (drop from xs))"

definition js_index :: "'a list \<Rightarrow> nat \<Rightarrow> 'a option" where
  \<comment> \<open>\<^verbatim>\<open>xs[i]\<close>; \<open>None\<close> is \<^verbatim>\<open>undefined\<close>\<close>
  "js_index xs i = (if i < length xs then Some (xs ! i) else None)"

definition js_pop :: "'a list \<Rightarrow> 'a list" where
  \<comment> \<open>the array left by \<^verbatim>\<open>xs.pop()\<close>; popping an empty array leaves it empty\<close>
  "js_pop xs = butlast xs"

section \<open>Props, closures and component state\<close>

text \<open>
  The props of one render. \<open>itemsRef\<close> is the identity of the array passed as
  \<^verbatim>\<open>items\<close>: dependency arrays compare it with \<^verbatim>\<open>Object.is\<close>, so a new array with the
  same elements counts as changed; an array is taken not to be mutated in place, so one
  identity has one content. \<open>onShow\<close> is the identity of the observer function, \<open>None\<close>
  when none is supplied. An item stands for the value itself, so that \<^verbatim>\<open>Object.is\<close> on
  the default item is equality. \<open>toBoolean\<close> is the host's truthiness of an item: the
  source tests \<^verbatim>\<open>defaultItem\<close> itself, so a supplied but falsy default item
  (\<^verbatim>\<open>0\<close>, the empty string) counts as absent.
\<close>

record 'a props =
  items :: "'a list"
  itemsRef :: nat
  defaultItem :: "'a option"
  toBoolean :: "'a \<Rightarrow> bool"
  onShow :: "nat option"
  displayTime :: int
  isAnimationEnabled :: bool
  startIndex :: int

text \<open>
  A scheduled advance or a running animation holds a closure: the arguments
  \<^verbatim>\<open>lastItems\<close> and \<^verbatim>\<open>counter\<close>, and the scope of the \<^verbatim>\<open>startAnimation\<close> that
  created it, that is the props of the render in which that function was created. The
  \<^verbatim>\<open>beginAnimation\<close> it calls was created in the same render, because
  \<^verbatim>\<open>startAnimation\<close> is among its dependencies; so the completion callback reads
  \<^verbatim>\<open>onShow\<close> in that scope and re-arms with that \<^verbatim>\<open>startAnimation\<close>.
  Counters are integers; a JavaScript number is exact on them below \<open>2^53\<close>.
\<close>

record 'a closure =
  lastItems :: "'a list"
  counter :: jsnum
  env :: "'a props"

record 'a timer =
  handle :: nat
  delay :: int
  callback :: "'a closure"

text \<open>
  What \<^verbatim>\<open>useCallback\<close> keeps between renders: the props of the last render, whose
  dependencies the next render compares with; the scope of the memoised
  \<^verbatim>\<open>startAnimation\<close>; the scope of the memoised \<^verbatim>\<open>init\<close>; and the scope of the
  \<^verbatim>\<open>startAnimation\<close> which that \<^verbatim>\<open>init\<close> captured when it was created.
\<close>

record 'a hooks =
  lastProps :: "'a props"
  startAnimationScope :: "'a props"
  initScope :: "'a props"
  initStartAnimation :: "'a props"

text \<open>
  The state: \<^verbatim>\<open>copiedItems\<close> (the rotation window), the two refs
  \<^verbatim>\<open>isShowDefaultItemBefore\<close> and \<^verbatim>\<open>animationTimeout\<close>, the host's pending timers,
  the animations whose completion callback has not run yet, the calls of the observers so
  far, oldest first, each with the identity of the function called, and the memoised
  callbacks, \<open>None\<close> before the first render.
\<close>

record 'a state =
  copiedItems :: "'a list"
  isShowDefaultItemBefore :: bool
  animationTimeout :: "nat option"
  timers :: "'a timer list"
  animating :: "'a closure list"
  shown :: "(nat \<times> 'a option \<times> jsnum) list"
  nextHandle :: nat
  hooks :: "'a hooks option"

definition mounted :: "'a state" where
  \<comment> \<open>the state of a component about to be mounted, before its first render\<close>
  "mounted = \<lparr> copiedItems = [], isShowDefaultItemBefore = False, animationTimeout = None,
       timers = [], animating = [], shown = [], nextHandle = 1, hooks = None \<rparr>"

definition hasDefault :: "'a props \<Rightarrow> bool" where
  \<comment> \<open>the test \<^verbatim>\<open>defaultItem\<close> in a condition\<close>
  "hasDefault p = (case defaultItem p of None \<Rightarrow> False | Some d \<Rightarrow> toBoolean p d)"

definition clearTimeout :: "nat \<Rightarrow> 'a state \<Rightarrow> 'a state" where
  "clearTimeout h st = st\<lparr> timers := filter (\<lambda>t. handle t \<noteq> h) (timers st) \<rparr>"

definition notify :: "'a props \<Rightarrow> 'a option \<Rightarrow> jsnum \<Rightarrow> 'a state \<Rightarrow> 'a state" where
  \<comment> \<open>\<^verbatim>\<open>if (onShow) { onShow(item, index) }\<close>, with \<^verbatim>\<open>onShow\<close> read in scope \<open>p\<close>\<close>
  "notify p item idx st =
     (case onShow p of
        None \<Rightarrow> st
      | Some f \<Rightarrow> st\<lparr> shown := shown st @ [(f, item, idx)] \<rparr>)"

section \<open>The rotation window\<close>

definition rotation :: "'a list \<Rightarrow> int \<Rightarrow> 'a list" where
  \<comment> \<open>\<^verbatim>\<open>[...items.slice(_startIndex), ...items.slice(0, _startIndex)]\<close>\<close>
  "rotation xs s =
     (let startIndex' = to_integer (js_rem s (int (length xs)))
      in js_slice xs startIndex' None @ js_slice xs 0 (Some startIndex'))"

definition wrap_index :: "int \<Rightarrow> int \<Rightarrow> jsnum" where
  \<comment> \<open>the wrapped offset in the words of the specification:
      \<^verbatim>\<open>((offset % length) + length) % length\<close>\<close>
  "wrap_index s n = js_rem_num (js_add (js_rem s n) n) n"

section \<open>Scheduler, transition and initializer\<close>

text \<open>
  Each function takes the scope it was created in. \<open>startAnimation q\<close> is the function
  created in the render with props \<open>q\<close>; \<open>init p q\<close> is the initializer created in the
  render with props \<open>p\<close>, which calls the \<^verbatim>\<open>startAnimation\<close> it captured, of scope \<open>q\<close>.
\<close>

definition startAnimation ::
  "'a props \<Rightarrow> 'a list \<Rightarrow> jsnum \<Rightarrow> int option \<Rightarrow> 'a state \<Rightarrow> 'a state" where
  "startAnimation q lastItems' counter' forceDisplayTime st =
     (if \<not> isAnimationEnabled q \<or> length lastItems' \<le> 1 then st
      else st\<lparr> animationTimeout := Some (nextHandle st),
               timers := timers st @
                 [\<lparr> handle = nextHandle st,
                    delay = (case forceDisplayTime of
                               None \<Rightarrow> displayTime q
                             | Some d \<Rightarrow> if d \<noteq> 0 then d else displayTime q),
                    callback = \<lparr> lastItems = lastItems', counter = counter', env = q \<rparr> \<rparr>],
               nextHandle := Suc (nextHandle st) \<rparr>)"

definition beginAnimation :: "'a closure \<Rightarrow> 'a state \<Rightarrow> 'a state" where
  \<comment> \<open>the animation starts; its completion callback runs later\<close>
  "beginAnimation c st = st\<lparr> animating := animating st @ [c] \<rparr>"

definition timerFired :: "nat \<Rightarrow> 'a state \<Rightarrow> 'a state" where
  \<comment> \<open>the host runs the callback of pending timer \<open>h\<close>\<close>
  "timerFired h st =
     (case filter (\<lambda>t. handle t = h) (timers st) of
        [] \<Rightarrow> st
      | t # _ \<Rightarrow> beginAnimation (callback t)
                  ((clearTimeout h st)\<lparr> animationTimeout := None \<rparr>))"

definition afterAnimating :: "'a closure \<Rightarrow> 'a state \<Rightarrow> 'a state" where
  \<comment> \<open>the body of the callback passed to \<^verbatim>\<open>start\<close>\<close>
  "afterAnimating c st =
     (let nextIndex = js_rem_num (js_add (counter c) 1) (int (length (lastItems c)));
          shiftedItems = js_slice (lastItems c) 1 None @ js_slice (lastItems c) 0 (Some 1);
          wasDefault = isShowDefaultItemBefore st;
          shiftedItems = (if wasDefault then js_pop shiftedItems else shiftedItems);
          nextIndex = (if wasDefault then js_add nextIndex (- 1) else nextIndex);
          st = (if wasDefault then st\<lparr> isShowDefaultItemBefore := False \<rparr> else st);
          st = notify (env c) (js_index shiftedItems 0) nextIndex st;
          st = st\<lparr> copiedItems := shiftedItems \<rparr>
      in if length shiftedItems > 1
         then startAnimation (env c) shiftedItems (js_add (counter c) 1) None st
         else st)"

definition animationDone :: "nat \<Rightarrow> 'a state \<Rightarrow> 'a state" where
  \<comment> \<open>the \<open>k\<close>-th running animation completes and its callback runs\<close>
  "animationDone k st =
     (if k < length (animating st)
      then afterAnimating (animating st ! k)
             (st\<lparr> animating := take k (animating st) @ drop (Suc k) (animating st) \<rparr>)
      else st)"

definition cancelPending :: "'a state \<Rightarrow> 'a state" where
  \<comment> \<open>the first statement of \<^verbatim>\<open>init\<close>\<close>
  "cancelPending st =
     (case animationTimeout st of
        None \<Rightarrow> st
      | Some h \<Rightarrow> (clearTimeout h st)\<lparr> animationTimeout := None \<rparr>)"

definition init :: "'a props \<Rightarrow> 'a props \<Rightarrow> 'a state \<Rightarrow> 'a state" where
  \<comment> \<open>the call \<^verbatim>\<open>startAnimation(_copiedItems)\<close> leaves the counter to its default,
      \<^verbatim>\<open>startIndex\<close> in the scope of \<^verbatim>\<open>startAnimation\<close>\<close>
  "init p q st0 =
     (let st = cancelPending st0;
          startIndex' = js_rem (startIndex p) (int (length (items p)));
          copiedItems' = rotation (items p) (startIndex p)
      in if items p = [] \<and> hasDefault p then
           st\<lparr> copiedItems := (case defaultItem p of None \<Rightarrow> [] | Some d \<Rightarrow> [d]),
               isShowDefaultItemBefore := True \<rparr>
         else if items p \<noteq> [] \<and> hasDefault p \<and> isAnimationEnabled p
                 \<and> isShowDefaultItemBefore st then
           (let copiedItems' = (case defaultItem p of None \<Rightarrow> copiedItems'
                                | Some d \<Rightarrow> d # copiedItems')
            in startAnimation q copiedItems' startIndex' (Some 100)
                 (st\<lparr> copiedItems := copiedItems' \<rparr>))
         else if items p \<noteq> [] \<and> isAnimationEnabled p then
           (let st = notify p (js_index copiedItems' 0) (Some (startIndex p))
                       (st\<lparr> copiedItems := copiedItems' \<rparr>)
            in if length (items p) > 1
               then startAnimation q copiedItems' (Some (startIndex q)) None st
               else st)
         else st)"

definition clear :: "'a state \<Rightarrow> 'a state" where
  \<comment> \<open>cancels the timer of the handle and leaves the handle as it is\<close>
  "clear st = (case animationTimeout st of None \<Rightarrow> st | Some h \<Rightarrow> clearTimeout h st)"

definition onStartOver :: "'a state \<Rightarrow> 'a state" where
  \<comment> \<open>\<^verbatim>\<open>clear(); init()\<close> with the memoised \<^verbatim>\<open>init\<close>: \<^verbatim>\<open>onStartOver\<close> is re-created
      exactly when \<^verbatim>\<open>init\<close> is, and the imperative handle is refreshed at every render.
      Before the first render there is no handle to call; the model then only clears.\<close>
  "onStartOver st =
     (case hooks st of
        None \<Rightarrow> clear st
      | Some h \<Rightarrow> init (initScope h) (initStartAnimation h) (clear st))"

definition render :: "('a \<Rightarrow> 'v) \<Rightarrow> 'a state \<Rightarrow> 'v list" where
  \<comment> \<open>\<^verbatim>\<open>copiedItems.slice(0, 3).map(item => renderItem(item))\<close>\<close>
  "render renderItem st = map renderItem (js_slice (copiedItems st) 0 (Some 3))"

section \<open>Renders: memoised callbacks and the effect\<close>

definition depsInit :: "'a props \<Rightarrow> nat \<times> bool \<times> int \<times> 'a option" where
  \<comment> \<open>\<^verbatim>\<open>[items, isAnimationEnabled, startIndex, defaultItem]\<close>\<close>
  "depsInit p = (itemsRef p, isAnimationEnabled p, startIndex p, defaultItem p)"

definition depsStartAnimation :: "'a props \<Rightarrow> int \<times> bool \<times> int" where
  \<comment> \<open>\<^verbatim>\<open>[displayTime, isAnimationEnabled, startIndex]\<close>\<close>
  "depsStartAnimation p = (displayTime p, isAnimationEnabled p, startIndex p)"

definition useCallbacks :: "'a props \<Rightarrow> 'a state \<Rightarrow> 'a state" where
  \<comment> \<open>a render with props \<open>p\<close>: each \<^verbatim>\<open>useCallback\<close> keeps its function when its
      dependencies are those of the last render and otherwise takes the one of this
      render; a new \<^verbatim>\<open>init\<close> captures the \<^verbatim>\<open>startAnimation\<close> of this render, which
      may itself be an older function\<close>
  "useCallbacks p st =
     (case hooks st of
        None \<Rightarrow>
          st\<lparr> hooks := Some \<lparr> lastProps = p, startAnimationScope = p, initScope = p,
                              initStartAnimation = p \<rparr> \<rparr>
      | Some h \<Rightarrow>
          (let sa = (if depsStartAnimation (lastProps h) = depsStartAnimation p
                     then startAnimationScope h else p)
           in if depsInit (lastProps h) = depsInit p
              then st\<lparr> hooks := Some \<lparr> lastProps = p, startAnimationScope = sa,
                                      initScope = initScope h,
                                      initStartAnimation = initStartAnimation h \<rparr> \<rparr>
              else st\<lparr> hooks := Some \<lparr> lastProps = p, startAnimationScope = sa,
                                      initScope = p, initStartAnimation = sa \<rparr> \<rparr>))"

definition effectRuns :: "'a props \<Rightarrow> 'a state \<Rightarrow> bool" where
  \<comment> \<open>the effect has the dependencies \<^verbatim>\<open>[items]\<close>: it runs after the first render and
      after a render with another array\<close>
  "effectRuns p st =
     (case hooks st of None \<Rightarrow> True | Some h \<Rightarrow> itemsRef (lastProps h) \<noteq> itemsRef p)"

definition Carousel :: "'a props \<Rightarrow> 'a state \<Rightarrow> 'a state" where
  \<comment> \<open>one render of the component with props \<open>p\<close> and the effects that follow it: when
      the effect runs, the cleanup of the previous one, \<^verbatim>\<open>clear()\<close>, runs first, then
      \<^verbatim>\<open>init()\<close>, the memoised initializer of this render\<close>
  "Carousel p st =
     (let st1 = useCallbacks p st
      in if effectRuns p st
         then (case hooks st1 of
                 None \<Rightarrow> st1
               | Some h \<Rightarrow>
                   init (initScope h) (initStartAnimation h)
                     (case hooks st of None \<Rightarrow> st1 | Some h0 \<Rightarrow> clear st1))
         else st1)"

section \<open>Events and runs\<close>

text \<open>
  What can happen to a component: a render with new props, with the effects that follow
  it, the first render being the mount; the host fires a pending timer; a running
  animation completes; the owner calls \<^verbatim>\<open>clear()\<close> or \<^verbatim>\<open>startOver()\<close> through the
  ref (the cleanup at unmount is a \<^verbatim>\<open>clear()\<close> too). Firing a handle that is not
  pending and completing an animation that is not running do nothing. A render caused by
  \<^verbatim>\<open>setCopiedItems\<close> has the props of the last one and changes nothing here.
\<close>

datatype 'a event =
    Render "'a props"
  | TimerFired nat
  | AnimationDone nat
  | Clear
  | StartOver

fun step :: "'a event \<Rightarrow> 'a state \<Rightarrow> 'a state" where
  "step (Render p) st = Carousel p st"
| "step (TimerFired h) st = timerFired h st"
| "step (AnimationDone k) st = animationDone k st"
| "step Clear st = clear st"
| "step StartOver st = onStartOver st"

fun run :: "'a event list \<Rightarrow> 'a state \<Rightarrow> 'a state" where
  "run [] st = st"
| "run (e # es) st = run es (step e st)"

section \<open>Schedules\<close>

text \<open>
  A schedule is ordered when the initializer never runs while an animation is still
  running, so that no completion callback observes a state that was reset under it.
\<close>

fun runsInit :: "'a event \<Rightarrow> 'a state \<Rightarrow> bool" where
  "runsInit (Render p) st = effectRuns p st"
| "runsInit StartOver st = True"
| "runsInit e st = False"

fun ordered :: "'a event list \<Rightarrow> 'a state \<Rightarrow> bool" where
  "ordered [] st = True"
| "ordered (e # es) st =
     ((runsInit e st \<longrightarrow> animating st = []) \<and> ordered es (step e st))"

fun propsOf :: "'a event list \<Rightarrow> 'a props list" where
  \<comment> \<open>the props of the renders of a schedule, in order\<close>
  "propsOf [] = []"
| "propsOf (Render p # es) = p # propsOf es"
| "propsOf (e # es) = propsOf es"

text \<open>
  The memoised callbacks agree with the last render on their dependencies, and come from
  renders of a given set. Before the first render nothing is scheduled.
\<close>

definition hooksAgree :: "'a state \<Rightarrow> bool" where
  "hooksAgree st =
     (case hooks st of
        None \<Rightarrow> animationTimeout st = None \<and> timers st = [] \<and> animating st = []
      | Some h \<Rightarrow> depsInit (initScope h) = depsInit (lastProps h)
          \<and> depsStartAnimation (startAnimationScope h) = depsStartAnimation (lastProps h)
          \<and> depsStartAnimation (initStartAnimation h) = depsStartAnimation (initScope h))"

definition scopesIn :: "'a props set \<Rightarrow> 'a state \<Rightarrow> bool" where
  "scopesIn S st =
     (case hooks st of
        None \<Rightarrow> True
      | Some h \<Rightarrow> lastProps h \<in> S \<and> startAnimationScope h \<in> S \<and> initScope h \<in> S
          \<and> initStartAnimation h \<in> S)"

text \<open>
  Handles are fresh: every pending timer and the handle ref were issued before
  \<open>nextHandle\<close>.
\<close>

definition wellFormed :: "'a state \<Rightarrow> bool" where
  "wellFormed st =
     (list_all (\<lambda>t. handle t < nextHandle st) (timers st)
      \<and> (case animationTimeout st of None \<Rightarrow> True | Some h \<Rightarrow> h < nextHandle st))"

text \<open>
  At most one advance is under way: pending timers and running animations together are
  at most one, and a pending timer is the one the handle ref names.
\<close>

definition atMostOne :: "'a state \<Rightarrow> bool" where
  "atMostOne st =
     (length (timers st) + length (animating st) \<le> 1
      \<and> list_all (\<lambda>t. animationTimeout st = Some (handle t)) (timers st))"

text \<open>
  The transition from the default item to a single real item: an initializer created
  under props with a truthy default item, animation enabled and one item arms it over the
  window of the default item followed by that item. Its timer has the forced delay, and
  its closure belongs to a \<^verbatim>\<open>startAnimation\<close> with animation enabled.
\<close>

definition fallbackWindow :: "'a props \<Rightarrow> 'a list \<Rightarrow> bool" where
  "fallbackWindow p w =
     (case defaultItem p of
        None \<Rightarrow> False
      | Some d \<Rightarrow> hasDefault p \<and> isAnimationEnabled p
                  \<and> length (items p) = 1 \<and> w = d # items p)"

definition fallbackClosure :: "'a props set \<Rightarrow> 'a closure \<Rightarrow> bool" where
  "fallbackClosure S c =
     (env c \<in> S \<and> isAnimationEnabled (env c) \<and> (\<exists>p \<in> S. fallbackWindow p (lastItems c)))"

definition fallbackTimer :: "'a props set \<Rightarrow> 'a timer \<Rightarrow> bool" where
  "fallbackTimer S t = (delay t = 100 \<and> fallbackClosure S (callback t))"

definition fallbackOnly :: "'a props set \<Rightarrow> 'a state \<Rightarrow> bool" where
  \<comment> \<open>whatever is scheduled or running is that transition, and the default item is
      still marked as showing while it is\<close>
  "fallbackOnly S st =
     (list_all (fallbackTimer S) (timers st) \<and> list_all (fallbackClosure S) (animating st)
      \<and> ((timers st \<noteq> [] \<or> animating st \<noteq> []) \<longrightarrow> isShowDefaultItemBefore st))"

definition advance :: "'a state \<Rightarrow> 'a state" where
  \<comment> \<open>one successful advance: the timer of the handle fires and the animation it
      starts runs to completion\<close>
  "advance st =
     (case animationTimeout st of
        None \<Rightarrow> st
      | Some h \<Rightarrow> animationDone (length (animating st)) (timerFired h st))"


definition exampleProps ::
  "nat \<Rightarrow> string list \<Rightarrow> string option \<Rightarrow> bool \<Rightarrow> int \<Rightarrow> string props" where
  \<comment> \<open>props over strings, whose truthiness is being non-empty: the array with identity
      \<open>r\<close>, observer 0, default dwell time\<close>
  "exampleProps r xs d enabled s =
     \<lparr> items = xs, itemsRef = r, defaultItem = d, toBoolean = (\<lambda>x. x \<noteq> []),
       onShow = Some 0, displayTime = 3000, isAnimationEnabled = enabled, startIndex = s \<rparr>"

section \<open>Slices and the rotation window\<close>

lemma js_slice_from_nonneg:
  "0 \<le> k \<Longrightarrow> js_slice xs k None = drop (nat k) xs"
  by (simp add: js_slice_def js_bound_def min_def)

lemma js_slice_upto_nonneg:
  "0 \<le> k \<Longrightarrow> js_slice xs 0 (Some k) = take (nat k) xs"
  by (simp add: js_slice_def js_bound_def min_def)

lemma js_slice_from_neg:
  "k < 0 \<Longrightarrow> - int (length xs) \<le> k \<Longrightarrow> js_slice xs k None = drop (nat (int (length xs) + k)) xs"
  by (simp add: js_slice_def js_bound_def max_def)

lemma js_slice_upto_neg:
  "k < 0 \<Longrightarrow> - int (length xs) \<le> k \<Longrightarrow> js_slice xs 0 (Some k) = take (nat (int (length xs) + k)) xs"
  by (simp add: js_slice_def js_bound_def max_def)

lemma js_rem_floor:
  assumes "0 < n"
  shows "js_rem s n = Some (if 0 \<le> s \<or> s mod n = 0 then s mod n else s mod n - n)"
proof (cases "0 \<le> s")
  case True
  with assms show ?thesis by (simp add: js_rem_def sgn_if)
next
  case False
  then have neg: "s < 0" by simp
  have "(- s) mod n = (if s mod n = 0 then 0 else n - s mod n)"
    using assms by (simp add: zmod_zminus1_eq_if)
  with neg assms show ?thesis by (simp add: js_rem_def)
qed

lemma rotation_rotate:
  assumes "xs \<noteq> []"
  shows "rotation xs s = rotate (nat (s mod int (length xs))) xs"
proof -
  let ?n = "int (length xs)"
  let ?k = "s mod ?n"
  from assms have n: "0 < ?n" by simp
  then have k: "0 \<le> ?k" "?k < ?n" by simp_all
  have rot: "rotate (nat ?k) xs = drop (nat ?k) xs @ take (nat ?k) xs"
    using k by (simp add: rotate_drop_take nat_less_iff)
  show ?thesis
  proof (cases "0 \<le> s \<or> ?k = 0")
    case True
    then have "js_rem s ?n = Some ?k" using js_rem_floor [OF n, of s] by simp
    then show ?thesis using k rot
      by (simp add: rotation_def Let_def to_integer_def js_slice_from_nonneg js_slice_upto_nonneg)
  next
    case False
    then have r: "js_rem s ?n = Some (?k - ?n)" using js_rem_floor [OF n, of s] by simp
    have lt: "?k - ?n < 0" and ge: "- ?n \<le> ?k - ?n" using k by simp_all
    show ?thesis using rot
      by (simp add: rotation_def Let_def to_integer_def r js_slice_from_neg [OF lt ge] js_slice_upto_neg [OF lt ge])
  qed
qed

lemma wrap_index_floor:
  assumes "0 < n"
  shows "wrap_index s n = Some (s mod n)"
proof -
  have k: "0 \<le> s mod n" "s mod n < n" using assms by simp_all
  then have "0 < s mod n + n" using assms by linarith
  then have "js_rem (s mod n + n) n = Some (s mod n)"
    using assms k by (simp add: js_rem_def sgn_if)
  moreover have "js_rem (s mod n - n + n) n = Some (s mod n)"
    using assms k by (simp add: js_rem_def sgn_if)
  ultimately show ?thesis
    using js_rem_floor [OF assms, of s]
    by (simp add: wrap_index_def js_add_def js_rem_num_def)
qed

lemma mset_rotate_eq: "mset (rotate n xs) = mset xs"
proof -
  have "mset (take (n mod length xs) xs @ drop (n mod length xs) xs) = mset xs"
    by (simp only: append_take_drop_id)
  then have "mset (take (n mod length xs) xs) + mset (drop (n mod length xs) xs) = mset xs"
    by (simp only: mset_append)
  then show ?thesis by (simp add: rotate_drop_take add.commute)
qed

lemma rotation_first:
  assumes "xs \<noteq> []"
  shows "js_index (rotation xs s) 0 = Some (xs ! nat (s mod int (length xs)))"
proof -
  have "nat (s mod int (length xs)) < length xs" using assms by (simp add: nat_less_iff)
  then show ?thesis using assms
    by (simp add: rotation_rotate js_index_def hd_rotate_conv_nth hd_conv_nth [symmetric])
qed

text \<open>
  Claim C7. For a non-empty item collection and any integer start offset, negative or
  beyond the length included, the computed rotation window has the same multiset of
  elements as the collection, and its first element is the item at index
  \<^verbatim>\<open>((offset % length) + length) % length\<close>, which lies within the collection. Slicing
  and the remainder are total, so the computation has no failing branch.
\<close>

theorem rotation_is_cyclic_permutation:
  assumes "xs \<noteq> []"
  shows "mset (rotation xs s) = mset xs
     \<and> (\<exists>k. wrap_index s (int (length xs)) = Some k \<and> 0 \<le> k \<and> k < int (length xs)
            \<and> js_index (rotation xs s) 0 = Some (xs ! nat k))"
proof -
  from assms have n: "0 < int (length xs)" by simp
  have "mset (rotation xs s) = mset xs"
    using assms by (simp add: rotation_rotate mset_rotate_eq)
  moreover have "wrap_index s (int (length xs)) = Some (s mod int (length xs))"
    by (rule wrap_index_floor [OF n])
  moreover have "0 \<le> s mod int (length xs)" "s mod int (length xs) < int (length xs)"
    using n by simp_all
  ultimately show ?thesis using rotation_first [OF assms, of s] by blast
qed

theorem rotation_is_cyclic_permutation_witness:
  "[''A'', ''B'', ''C''] \<noteq> []
   \<and> mset (rotation [''A'', ''B'', ''C''] (- 5)) = mset [''A'', ''B'', ''C'']
   \<and> wrap_index (- 5) 3 = Some 1
   \<and> js_index (rotation [''A'', ''B'', ''C''] (- 5)) 0 = Some ''B''"
  using rotation_is_cyclic_permutation [of "[''A'', ''B'', ''C'']" "- 5"]
  by (simp add: wrap_index_def js_rem_def js_add_def js_rem_num_def)

section \<open>The rendered stack\<close>

lemma js_slice_take: "js_slice xs 0 (Some (int n)) = take n xs"
  by (simp add: js_slice_def js_bound_def min_def)

text \<open>
  Claim C10. The rendered stack is the render mapping applied to the first three elements
  of the rotation window, in window order, hence to \<open>min 3 (length window)\<close> elements;
  no later element of the window reaches the render mapping.
\<close>

theorem render_first_three:
  "render renderItem st = map renderItem (take 3 (copiedItems st))
   \<and> length (render renderItem st) = min 3 (length (copiedItems st))"
  using js_slice_take [of "copiedItems st" 3] by (simp add: render_def)

section \<open>Field by field: what each operation touches\<close>

lemmas carousel_defs = init_def cancelPending_def clearTimeout_def startAnimation_def notify_def
  hasDefault_def rotation_def js_rem_def js_rem_num_def js_add_def to_integer_def js_slice_def
  js_bound_def js_index_def js_pop_def timerFired_def beginAnimation_def animationDone_def
  afterAnimating_def clear_def onStartOver_def mounted_def exampleProps_def Let_def advance_def
  Carousel_def useCallbacks_def effectRuns_def depsInit_def depsStartAnimation_def

lemma cancelPending_fields:
  "copiedItems (cancelPending st) = copiedItems st"
  "isShowDefaultItemBefore (cancelPending st) = isShowDefaultItemBefore st"
  "animating (cancelPending st) = animating st"
  "shown (cancelPending st) = shown st"
  "nextHandle (cancelPending st) = nextHandle st"
  "hooks (cancelPending st) = hooks st"
  "animationTimeout (cancelPending st) = None"
  "timers (cancelPending st) = filter (\<lambda>t. Some (handle t) \<noteq> animationTimeout st) (timers st)"
  by (simp_all add: cancelPending_def clearTimeout_def split: option.split)

lemma clear_fields:
  "copiedItems (clear st) = copiedItems st"
  "isShowDefaultItemBefore (clear st) = isShowDefaultItemBefore st"
  "animating (clear st) = animating st"
  "shown (clear st) = shown st"
  "nextHandle (clear st) = nextHandle st"
  "hooks (clear st) = hooks st"
  "animationTimeout (clear st) = animationTimeout st"
  "timers (clear st) = filter (\<lambda>t. Some (handle t) \<noteq> animationTimeout st) (timers st)"
  by (simp_all add: clear_def clearTimeout_def split: option.split)

lemma cancelPending_clear: "cancelPending (clear st) = cancelPending st"
  by (cases "animationTimeout st") (simp_all add: cancelPending_def clear_def clearTimeout_def)

lemma startAnimation_fields:
  "copiedItems (startAnimation q w c f st) = copiedItems st"
  "isShowDefaultItemBefore (startAnimation q w c f st) = isShowDefaultItemBefore st"
  "animating (startAnimation q w c f st) = animating st"
  "shown (startAnimation q w c f st) = shown st"
  "hooks (startAnimation q w c f st) = hooks st"
  by (simp_all add: startAnimation_def)

lemma notify_fields:
  "copiedItems (notify p x i st) = copiedItems st"
  "isShowDefaultItemBefore (notify p x i st) = isShowDefaultItemBefore st"
  "animating (notify p x i st) = animating st"
  "timers (notify p x i st) = timers st"
  "animationTimeout (notify p x i st) = animationTimeout st"
  "nextHandle (notify p x i st) = nextHandle st"
  "hooks (notify p x i st) = hooks st"
  "shown (notify p x i st)
     = shown st @ (case onShow p of None \<Rightarrow> [] | Some f \<Rightarrow> [(f, x, i)])"
  by (simp_all add: notify_def split: option.split)

lemma useCallbacks_fields:
  "copiedItems (useCallbacks p st) = copiedItems st"
  "isShowDefaultItemBefore (useCallbacks p st) = isShowDefaultItemBefore st"
  "animating (useCallbacks p st) = animating st"
  "timers (useCallbacks p st) = timers st"
  "animationTimeout (useCallbacks p st) = animationTimeout st"
  "nextHandle (useCallbacks p st) = nextHandle st"
  "shown (useCallbacks p st) = shown st"
  by (simp_all add: useCallbacks_def Let_def split: option.split)

lemma init_falls_through:
  assumes "\<not> (items p = [] \<and> hasDefault p)" "items p = [] \<or> \<not> isAnimationEnabled p"
  shows "init p q st = cancelPending st"
  using assms by (auto simp add: init_def Let_def)

lemma init_normal:
  assumes "items p \<noteq> []" "isAnimationEnabled p" "\<not> (hasDefault p \<and> isShowDefaultItemBefore st)"
  shows "init p q st =
     (let w = rotation (items p) (startIndex p);
          st' = notify p (js_index w 0) (Some (startIndex p)) ((cancelPending st)\<lparr> copiedItems := w \<rparr>)
      in if length (items p) > 1 then startAnimation q w (Some (startIndex q)) None st' else st')"
  using assms by (auto simp add: init_def Let_def cancelPending_fields)

lemma init_clear: "init p q (clear st) = init p q st"
  by (simp add: init_def cancelPending_clear)

section \<open>Memoised callbacks\<close>

lemma hooks_init: "hooks (init p q st) = hooks st"
  by (simp add: init_def Let_def startAnimation_fields notify_fields cancelPending_fields)

lemma hooks_timerFired: "hooks (timerFired h st) = hooks st"
  by (simp add: timerFired_def beginAnimation_def clearTimeout_def split: list.split)

lemma hooks_afterAnimating: "hooks (afterAnimating c st) = hooks st"
  by (simp add: afterAnimating_def Let_def startAnimation_fields notify_fields)

lemma hooks_animationDone: "hooks (animationDone k st) = hooks st"
  by (simp add: animationDone_def hooks_afterAnimating)

lemma hooks_onStartOver: "hooks (onStartOver st) = hooks st"
  by (simp add: onStartOver_def hooks_init clear_fields split: option.split)

lemma hooks_Carousel: "hooks (Carousel p st) = hooks (useCallbacks p st)"
  by (simp add: Carousel_def Let_def hooks_init clear_fields split: option.split)

lemma useCallbacks_Some: "\<exists>h. hooks (useCallbacks p st) = Some h \<and> lastProps h = p"
  by (simp add: useCallbacks_def Let_def split: option.split)

text \<open>
  When the effect runs, the array has changed or this is the first render, so the
  initializer is re-created in this render and captures the \<^verbatim>\<open>startAnimation\<close> of this
  render.
\<close>

lemma effect_init_fresh:
  assumes "effectRuns p st" "hooks (useCallbacks p st) = Some h"
  shows "initScope h = p \<and> initStartAnimation h = startAnimationScope h"
  using assms
  by (auto simp add: effectRuns_def useCallbacks_def Let_def depsInit_def split: option.splits if_splits)

lemma Carousel_effect:
  assumes "effectRuns p st" "hooks (useCallbacks p st) = Some h"
  shows "Carousel p st = init p (startAnimationScope h) (useCallbacks p st)"
proof -
  have fresh: "initScope h = p" "initStartAnimation h = startAnimationScope h"
    using effect_init_fresh [OF assms] by simp_all
  show ?thesis using assms fresh
    by (cases "hooks st") (simp_all add: Carousel_def Let_def init_clear)
qed

lemma Carousel_no_effect: "\<not> effectRuns p st \<Longrightarrow> Carousel p st = useCallbacks p st"
  by (simp add: Carousel_def Let_def)

lemma hooksAgree_useCallbacks:
  assumes "hooksAgree st"
  shows "hooksAgree (useCallbacks p st)"
  using assms
  by (auto simp add: hooksAgree_def useCallbacks_def Let_def split: option.splits)

lemma hooksAgree_same_hooks:
  assumes "hooksAgree st" "hooks st' = hooks st" "hooks st \<noteq> None"
  shows "hooksAgree st'"
  using assms by (auto simp add: hooksAgree_def split: option.splits)

lemma hooksAgree_unrendered:
  assumes "hooksAgree st" "hooks st = None"
  shows "timerFired h st = st" "animationDone k st = st" "clear st = st" "onStartOver st = st"
  using assms
  by (simp_all add: hooksAgree_def timerFired_def animationDone_def clear_def onStartOver_def)

lemma hooksAgree_step:
  assumes "hooksAgree st"
  shows "hooksAgree (step e st)"
proof (cases "hooks st")
  case None
  show ?thesis
  proof (cases e)
    case (Render p)
    obtain h where h: "hooks (useCallbacks p st) = Some h" using useCallbacks_Some by blast
    have "hooksAgree (useCallbacks p st)" by (rule hooksAgree_useCallbacks [OF assms])
    then show ?thesis using Render h
      using hooksAgree_same_hooks [of "useCallbacks p st" "Carousel p st"]
      by (simp add: hooks_Carousel)
  qed (use assms hooksAgree_unrendered [OF assms None] in simp_all)
next
  case (Some h0)
  show ?thesis
  proof (cases e)
    case (Render p)
    obtain h where h: "hooks (useCallbacks p st) = Some h" using useCallbacks_Some by blast
    have "hooksAgree (useCallbacks p st)" by (rule hooksAgree_useCallbacks [OF assms])
    then show ?thesis using Render h
      using hooksAgree_same_hooks [of "useCallbacks p st" "Carousel p st"]
      by (simp add: hooks_Carousel)
  qed (use assms Some in \<open>simp_all add: hooksAgree_same_hooks hooks_timerFired hooks_animationDone
         clear_fields hooks_onStartOver\<close>)
qed

lemma hooksAgree_run: "hooksAgree st \<Longrightarrow> hooksAgree (run es st)"
  by (induction es arbitrary: st) (simp_all add: hooksAgree_step)

lemma hooksAgree_mounted: "hooksAgree mounted"
  by (simp add: hooksAgree_def mounted_def)

lemma propsOf_Cons: "propsOf (e # es) = propsOf [e] @ propsOf es"
  by (cases e) simp_all



lemma scopesIn_useCallbacks:
  assumes "scopesIn S st" "p \<in> S"
  shows "scopesIn S (useCallbacks p st)"
  using assms by (auto simp add: scopesIn_def useCallbacks_def Let_def split: option.splits)

lemma scopesIn_same_hooks: "scopesIn S st \<Longrightarrow> hooks st' = hooks st \<Longrightarrow> scopesIn S st'"
  by (simp add: scopesIn_def)

lemma scopesIn_step:
  assumes "scopesIn S st" "set (propsOf [e]) \<subseteq> S"
  shows "scopesIn S (step e st)"
proof (cases e)
  case (Render p)
  with assms have "scopesIn S (useCallbacks p st)" by (simp add: scopesIn_useCallbacks)
  then show ?thesis using Render by (simp add: scopesIn_def hooks_Carousel)
qed (use assms in \<open>simp_all add: scopesIn_def hooks_timerFired hooks_animationDone clear_fields
       hooks_onStartOver\<close>)


lemma scopesIn_mounted: "scopesIn S mounted"
  by (simp add: scopesIn_def mounted_def)



section \<open>Fresh handles\<close>

lemma wellFormed_cancelPending: "wellFormed st \<Longrightarrow> wellFormed (cancelPending st)"
  by (auto simp add: wellFormed_def cancelPending_def clearTimeout_def list_all_iff split: option.splits)

lemma wellFormed_clear: "wellFormed st \<Longrightarrow> wellFormed (clear st)"
  by (auto simp add: wellFormed_def clear_def clearTimeout_def list_all_iff split: option.splits)

lemma wellFormed_startAnimation: "wellFormed st \<Longrightarrow> wellFormed (startAnimation q w c f st)"
  by (auto simp add: wellFormed_def startAnimation_def list_all_iff split: option.splits)

lemma wellFormed_notify: "wellFormed (notify p x i st) = wellFormed st"
  by (simp add: wellFormed_def notify_fields split: option.split)

lemma wellFormed_upd:
  "wellFormed (st\<lparr> copiedItems := w \<rparr>) = wellFormed st"
  "wellFormed (st\<lparr> isShowDefaultItemBefore := b \<rparr>) = wellFormed st"
  "wellFormed (st\<lparr> animating := a \<rparr>) = wellFormed st"
  "wellFormed (useCallbacks p st) = wellFormed st"
  by (simp_all add: wellFormed_def useCallbacks_fields split: option.split)

lemma wellFormed_init: "wellFormed st \<Longrightarrow> wellFormed (init p q st)"
  by (simp add: init_def Let_def wellFormed_cancelPending wellFormed_startAnimation
        wellFormed_notify wellFormed_upd)

lemma wellFormed_timerFired: "wellFormed st \<Longrightarrow> wellFormed (timerFired h st)"
  by (auto simp add: wellFormed_def timerFired_def beginAnimation_def clearTimeout_def list_all_iff
        split: list.splits)

lemma wellFormed_afterAnimating: "wellFormed st \<Longrightarrow> wellFormed (afterAnimating c st)"
  by (simp add: afterAnimating_def Let_def wellFormed_startAnimation wellFormed_notify wellFormed_upd)

lemma wellFormed_animationDone: "wellFormed st \<Longrightarrow> wellFormed (animationDone k st)"
  by (simp add: animationDone_def wellFormed_afterAnimating wellFormed_upd)

lemma wellFormed_onStartOver: "wellFormed st \<Longrightarrow> wellFormed (onStartOver st)"
  by (simp add: onStartOver_def wellFormed_init wellFormed_clear split: option.split)

lemma wellFormed_Carousel: "wellFormed st \<Longrightarrow> wellFormed (Carousel p st)"
  by (simp add: Carousel_def Let_def wellFormed_init wellFormed_clear wellFormed_upd
        split: option.split)

lemma wellFormed_step: "wellFormed st \<Longrightarrow> wellFormed (step e st)"
  by (cases e) (simp_all add: wellFormed_Carousel wellFormed_timerFired wellFormed_animationDone
        wellFormed_clear wellFormed_onStartOver)

lemma wellFormed_run: "wellFormed st \<Longrightarrow> wellFormed (run es st)"
  by (induction es arbitrary: st) (simp_all add: wellFormed_step)

lemma wellFormed_mounted: "wellFormed mounted"
  by (simp add: wellFormed_def mounted_def)


lemma init_handle_fresh:
  "animationTimeout (init p q st) = None \<or> animationTimeout (init p q st) = Some (nextHandle st)"
  by (simp add: init_def Let_def startAnimation_def notify_fields cancelPending_fields)

lemma init_timers_subset:
  "handle ` set (timers (init p q st))
     \<subseteq> handle ` {t \<in> set (timers st). Some (handle t) \<noteq> animationTimeout st} \<union> {nextHandle st}"
  by (auto simp add: init_def Let_def startAnimation_def notify_fields cancelPending_fields)

section \<open>The pending timer\<close>

lemma atMostOne_idle: "timers st = [] \<Longrightarrow> animating st = [] \<Longrightarrow> atMostOne st"
  by (simp add: atMostOne_def)

lemma atMostOne_cancelled:
  assumes "atMostOne st"
  shows "filter (\<lambda>t. Some (handle t) \<noteq> animationTimeout st) (timers st) = []"
  using assms by (auto simp add: atMostOne_def list_all_iff filter_empty_conv)

lemma atMostOne_startAnimation:
  assumes "timers st = []" "animating st = []"
  shows "atMostOne (startAnimation q w c f st)"
  using assms by (simp add: atMostOne_def startAnimation_def)

lemma atMostOne_upd:
  "atMostOne (st\<lparr> copiedItems := w \<rparr>) = atMostOne st"
  "atMostOne (st\<lparr> isShowDefaultItemBefore := b \<rparr>) = atMostOne st"
  "atMostOne (notify p x i st) = atMostOne st"
  "atMostOne (useCallbacks p st) = atMostOne st"
  by (simp_all add: atMostOne_def notify_fields useCallbacks_fields)

lemma init_idle_after_cancel:
  assumes "atMostOne st" "animating st = []"
  shows "timers (cancelPending st) = [] \<and> animating (cancelPending st) = []"
  using assms by (simp add: cancelPending_fields atMostOne_cancelled)

lemma atMostOne_init:
  assumes "atMostOne st" "animating st = []"
  shows "atMostOne (init p q st)"
proof -
  have idle: "timers (cancelPending st) = []" "animating (cancelPending st) = []"
    using init_idle_after_cancel [OF assms] by simp_all
  show ?thesis
    using idle
    by (simp add: init_def Let_def atMostOne_upd atMostOne_idle atMostOne_startAnimation
          notify_fields)
qed

lemma atMostOne_clear: "atMostOne st \<Longrightarrow> atMostOne (clear st)"
  using atMostOne_cancelled [of st]
  by (simp add: atMostOne_def clear_fields)

lemma atMostOne_timerFired:
  assumes "atMostOne st"
  shows "atMostOne (timerFired h st)"
proof (cases "timers st")
  case Nil
  with assms show ?thesis by (simp add: timerFired_def)
next
  case (Cons t ts)
  with assms have ts: "ts = []" and idle: "animating st = []"
    by (simp_all add: atMostOne_def)
  show ?thesis using assms Cons ts idle
    by (simp add: timerFired_def beginAnimation_def clearTimeout_def atMostOne_def)
qed

lemma afterAnimating_idle:
  assumes "timers st = []" "animating st = []"
  shows "atMostOne (afterAnimating c st)"
  using assms
  by (simp add: afterAnimating_def Let_def atMostOne_startAnimation atMostOne_idle notify_fields)

lemma atMostOne_sole_animation:
  assumes "atMostOne st" "k < length (animating st)"
  shows "timers st = [] \<and> k = 0 \<and> take k (animating st) @ drop (Suc k) (animating st) = []"
proof -
  from assms have "length (timers st) = 0 \<and> k = 0 \<and> length (animating st) = 1"
    unfolding atMostOne_def by linarith
  then show ?thesis by simp
qed

lemma atMostOne_animationDone:
  assumes "atMostOne st"
  shows "atMostOne (animationDone k st)"
proof (cases "k < length (animating st)")
  case False
  with assms show ?thesis by (simp add: animationDone_def)
next
  case True
  from atMostOne_sole_animation [OF assms True] True show ?thesis
    by (simp add: animationDone_def afterAnimating_idle)
qed

lemma atMostOne_onStartOver:
  assumes "atMostOne st" "animating st = []"
  shows "atMostOne (onStartOver st)"
  using assms
  by (simp add: onStartOver_def atMostOne_init atMostOne_clear clear_fields split: option.split)

lemma atMostOne_Carousel:
  assumes "atMostOne st" "effectRuns p st \<longrightarrow> animating st = []"
  shows "atMostOne (Carousel p st)"
  using assms
  by (simp add: Carousel_def Let_def atMostOne_init atMostOne_clear atMostOne_upd clear_fields
        useCallbacks_fields split: option.split)

lemma atMostOne_step:
  assumes "atMostOne st" "runsInit e st \<longrightarrow> animating st = []"
  shows "atMostOne (step e st)"
  using assms
  by (cases e) (simp_all add: atMostOne_Carousel atMostOne_timerFired atMostOne_animationDone
        atMostOne_clear atMostOne_onStartOver)

lemma atMostOne_run:
  "atMostOne st \<Longrightarrow> ordered es st \<Longrightarrow> atMostOne (run es st)"
  by (induction es arbitrary: st) (simp_all add: atMostOne_step)

lemma atMostOne_mounted: "atMostOne mounted"
  by (simp add: atMostOne_def mounted_def)

lemma atMostOne_length: "atMostOne st \<Longrightarrow> length (timers st) \<le> 1"
  by (simp add: atMostOne_def)

text \<open>
  Claim C4, as amended. In every state reached from the mounted component by a schedule of
  renders, timer fires, animation completions, \<^verbatim>\<open>clear()\<close> and \<^verbatim>\<open>startOver()\<close> in
  which the initializer never runs while an animation is still running, at most one timer
  is pending. In every reachable state, whatever the schedule, the first statement of the
  initializer leaves the handle ref null; after the initializer, of whatever scope, after a
  render whose effect runs it, and after \<^verbatim>\<open>startOver()\<close>, the timer the ref named is
  no longer pending and the ref no longer names it; after \<^verbatim>\<open>clear()\<close> that timer is no
  longer pending.
\<close>

theorem pending_timer_discipline:
  "(ordered es mounted \<longrightarrow> length (timers (run es mounted)) \<le> 1)
   \<and> animationTimeout (cancelPending (run es mounted)) = None
   \<and> (\<forall>h. animationTimeout (run es mounted) = Some h \<longrightarrow>
          h \<notin> handle ` set (timers (init p q (run es mounted)))
        \<and> animationTimeout (init p q (run es mounted)) \<noteq> Some h
        \<and> (effectRuns p (run es mounted) \<longrightarrow>
              h \<notin> handle ` set (timers (Carousel p (run es mounted)))
            \<and> animationTimeout (Carousel p (run es mounted)) \<noteq> Some h)
        \<and> h \<notin> handle ` set (timers (onStartOver (run es mounted)))
        \<and> animationTimeout (onStartOver (run es mounted)) \<noteq> Some h
        \<and> h \<notin> handle ` set (timers (clear (run es mounted))))"
proof -
  let ?st = "run es mounted"
  have one: "ordered es mounted \<longrightarrow> length (timers ?st) \<le> 1"
    using atMostOne_run [OF atMostOne_mounted] atMostOne_length by blast
  have wf: "wellFormed ?st" by (rule wellFormed_run [OF wellFormed_mounted])
  have agree: "hooksAgree ?st" by (rule hooksAgree_run [OF hooksAgree_mounted])
  have rest: "h \<notin> handle ` set (timers (init p q ?st))
        \<and> animationTimeout (init p q ?st) \<noteq> Some h
        \<and> (effectRuns p ?st \<longrightarrow>
              h \<notin> handle ` set (timers (Carousel p ?st))
            \<and> animationTimeout (Carousel p ?st) \<noteq> Some h)
        \<and> h \<notin> handle ` set (timers (onStartOver ?st))
        \<and> animationTimeout (onStartOver ?st) \<noteq> Some h
        \<and> h \<notin> handle ` set (timers (clear ?st))" if h: "animationTimeout ?st = Some h" for h
  proof -
    from wf h have less: "h < nextHandle ?st" by (simp add: wellFormed_def)
    from agree h obtain h0 where h0: "hooks ?st = Some h0"
      by (auto simp add: hooksAgree_def split: option.splits)
    have init_any: "h \<notin> handle ` set (timers (init p' q' st'))
        \<and> animationTimeout (init p' q' st') \<noteq> Some h"
      if "animationTimeout st' = Some h" "nextHandle st' = nextHandle ?st"
        "set (timers st') \<subseteq> set (timers ?st)" for p' q' st'
      using init_timers_subset [of p' q' st'] init_handle_fresh [of p' q' st'] that less by auto
    have a: "h \<notin> handle ` set (timers (init p q ?st))
        \<and> animationTimeout (init p q ?st) \<noteq> Some h"
      using init_any [of ?st p q] h by simp
    have b: "h \<notin> handle ` set (timers (Carousel p ?st))
        \<and> animationTimeout (Carousel p ?st) \<noteq> Some h" if eff: "effectRuns p ?st"
    proof -
      obtain h1 where h1: "hooks (useCallbacks p ?st) = Some h1" using useCallbacks_Some by blast
      show ?thesis
        unfolding Carousel_effect [OF eff h1]
        using init_any [of "useCallbacks p ?st" p "startAnimationScope h1"] h
        by (simp add: useCallbacks_fields)
    qed
    have c: "h \<notin> handle ` set (timers (onStartOver ?st))
        \<and> animationTimeout (onStartOver ?st) \<noteq> Some h"
      using init_any [of "clear ?st" "initScope h0" "initStartAnimation h0"] h h0
      by (simp add: onStartOver_def clear_fields)
    have e: "h \<notin> handle ` set (timers (clear ?st))"
      using h by (auto simp add: clear_fields)
    from a b c e show ?thesis by blast
  qed
  show ?thesis using one rest by (simp add: cancelPending_fields)
qed

text \<open>
  An instance: after one full advance, a \<^verbatim>\<open>clear()\<close> and a restart, one timer is
  pending, with handle 3, and a render with another array cancels it.
\<close>

theorem pending_timer_discipline_witness:
  "ordered [Render (exampleProps 1 [''A'', ''B'', ''C''] None True 0), TimerFired 1,
            AnimationDone 0, Clear, StartOver] mounted
   \<and> length (timers (run [Render (exampleProps 1 [''A'', ''B'', ''C''] None True 0), TimerFired 1,
            AnimationDone 0, Clear, StartOver] mounted)) \<le> 1
   \<and> animationTimeout (run [Render (exampleProps 1 [''A'', ''B'', ''C''] None True 0),
            TimerFired 1, AnimationDone 0, Clear, StartOver] mounted) = Some 3
   \<and> effectRuns (exampleProps 2 [''A'', ''B''] None True 0)
        (run [Render (exampleProps 1 [''A'', ''B'', ''C''] None True 0),
              TimerFired 1, AnimationDone 0, Clear, StartOver] mounted)
   \<and> 3 \<notin> handle ` set (timers (Carousel (exampleProps 2 [''A'', ''B''] None True 0)
            (run [Render (exampleProps 1 [''A'', ''B'', ''C''] None True 0), TimerFired 1,
              AnimationDone 0, Clear, StartOver] mounted)))"
  using pending_timer_discipline [of "[Render (exampleProps 1 [''A'', ''B'', ''C''] None True 0),
            TimerFired 1, AnimationDone 0, Clear, StartOver]"
          "exampleProps 2 [''A'', ''B''] None True 0" "exampleProps 2 [''A'', ''B''] None True 0"]
  by (simp add: carousel_defs)

text \<open>
  The claim as stated fails on two counts. A restart while the first animation is running
  arms timer 2; the completion of that animation then arms timer 3 without cancelling
  timer 2, so two timers are pending. And \<^verbatim>\<open>clear()\<close> cancels the timer but leaves
  its handle in the ref.
\<close>

theorem two_timers_pending:
  "ordered [Render (exampleProps 1 [''A'', ''B'', ''C''] None True 0), TimerFired 1] mounted
   \<and> map handle (timers (run [Render (exampleProps 1 [''A'', ''B'', ''C''] None True 0),
                  TimerFired 1, StartOver, AnimationDone 0] mounted)) = [2, 3]
   \<and> timers (run [Render (exampleProps 1 [''A'', ''B'', ''C''] None True 0), Clear] mounted) = []
   \<and> animationTimeout (run [Render (exampleProps 1 [''A'', ''B'', ''C''] None True 0), Clear]
        mounted) = Some 1"
  by (simp add: carousel_defs)

section \<open>Animation disabled\<close>

lemma quiet_init:
  assumes "\<not> isAnimationEnabled p" "timers st = []" "animating st = []" "shown st = []"
  shows "timers (init p q st) = [] \<and> animating (init p q st) = [] \<and> shown (init p q st) = []"
  using assms by (simp add: init_def Let_def cancelPending_fields)

lemma quiet_step:
  assumes "list_all (\<lambda>r. \<not> isAnimationEnabled r) (propsOf [e])"
    and "scopesIn {r. \<not> isAnimationEnabled r} st"
    and "timers st = [] \<and> animating st = [] \<and> shown st = []"
  shows "timers (step e st) = [] \<and> animating (step e st) = [] \<and> shown (step e st) = []"
proof (cases e)
  case (Render p)
  obtain h where h: "hooks (useCallbacks p st) = Some h" using useCallbacks_Some by blast
  show ?thesis
  proof (cases "effectRuns p st")
    case True
    show ?thesis using Render assms
      by (simp add: Carousel_effect [OF True h] quiet_init useCallbacks_fields)
  next
    case False
    then show ?thesis using Render assms by (simp add: Carousel_no_effect useCallbacks_fields)
  qed
next
  case StartOver
  with assms show ?thesis
    by (auto simp add: onStartOver_def quiet_init clear_fields scopesIn_def split: option.splits)
qed (use assms in \<open>simp_all add: timerFired_def animationDone_def clear_fields\<close>)

lemma quiet_run:
  assumes "list_all (\<lambda>r. \<not> isAnimationEnabled r) (propsOf es)"
    and "scopesIn {r. \<not> isAnimationEnabled r} st"
    and "timers st = [] \<and> animating st = [] \<and> shown st = []"
  shows "timers (run es st) = [] \<and> animating (run es st) = [] \<and> shown (run es st) = []"
  using assms
proof (induction es arbitrary: st)
  case Nil
  then show ?case by simp
next
  case (Cons e es)
  from Cons.prems(1) have e: "list_all (\<lambda>r. \<not> isAnimationEnabled r) (propsOf [e])"
    and es: "list_all (\<lambda>r. \<not> isAnimationEnabled r) (propsOf es)"
    by (simp_all add: propsOf_Cons [of e es])
  from e have sub: "set (propsOf [e]) \<subseteq> {r. \<not> isAnimationEnabled r}"
    by (auto simp add: list_all_iff)
  show ?case
    using Cons.IH [OF es scopesIn_step [OF Cons.prems(2) sub] quiet_step [OF e Cons.prems(2,3)]]
    by simp
qed

lemma Carousel_cancels_only:
  assumes "\<And>q st'. init p q st' = cancelPending st'"
  shows "copiedItems (Carousel p st) = copiedItems st \<and> shown (Carousel p st) = shown st
     \<and> isShowDefaultItemBefore (Carousel p st) = isShowDefaultItemBefore st
     \<and> set (timers (Carousel p st)) \<subseteq> set (timers st)"
proof -
  obtain h where h: "hooks (useCallbacks p st) = Some h" using useCallbacks_Some by blast
  show ?thesis
  proof (cases "effectRuns p st")
    case True
    show ?thesis
      by (auto simp add: Carousel_effect [OF True h] assms cancelPending_fields useCallbacks_fields)
  next
    case False
    then show ?thesis by (simp add: Carousel_no_effect useCallbacks_fields)
  qed
qed

text \<open>
  Claim C2, as amended. When animation is disabled and the item collection is non-empty,
  the initializer does nothing beyond cancelling the pending timer and nulling the handle
  ref: the rotation window is left as it was, the observer is not notified and no timer is
  armed; so a render with such props leaves the window and the observer log as they were
  and arms no timer. In a schedule all of whose renders have animation disabled, no timer
  is ever pending, no animation ever runs and no observer is ever notified.
\<close>

theorem init_without_animation:
  assumes "\<not> isAnimationEnabled p" and "items p \<noteq> []"
  shows "init p q st = cancelPending st
     \<and> copiedItems (init p q st) = copiedItems st
     \<and> shown (init p q st) = shown st
     \<and> animationTimeout (init p q st) = None
     \<and> timers (init p q st) = filter (\<lambda>t. Some (handle t) \<noteq> animationTimeout st) (timers st)
     \<and> copiedItems (Carousel p st) = copiedItems st
     \<and> shown (Carousel p st) = shown st
     \<and> set (timers (Carousel p st)) \<subseteq> set (timers st)
     \<and> (list_all (\<lambda>r. \<not> isAnimationEnabled r) (propsOf es) \<longrightarrow>
           timers (run es mounted) = [] \<and> animating (run es mounted) = []
           \<and> shown (run es mounted) = [])"
proof -
  have "list_all (\<lambda>r. \<not> isAnimationEnabled r) (propsOf es) \<Longrightarrow>
      timers (run es mounted) = [] \<and> animating (run es mounted) = [] \<and> shown (run es mounted) = []"
    by (rule quiet_run) (simp_all add: mounted_def scopesIn_def)
  moreover have fall: "init p q' st' = cancelPending st'" for q' st'
    using assms by (simp add: init_falls_through)
  ultimately show ?thesis
    using Carousel_cancels_only [of p st, OF fall] by (simp add: fall cancelPending_fields)
qed

text \<open>
  An instance: three items with animation disabled, on the mounted component.
\<close>

theorem init_without_animation_witness:
  "\<not> isAnimationEnabled (exampleProps 1 [''A'', ''B'', ''C''] None False 0)
   \<and> items (exampleProps 1 [''A'', ''B'', ''C''] None False 0) \<noteq> []
   \<and> copiedItems (Carousel (exampleProps 1 [''A'', ''B'', ''C''] None False 0) mounted) = []
   \<and> shown (Carousel (exampleProps 1 [''A'', ''B'', ''C''] None False 0) mounted) = []
   \<and> timers (run [Render (exampleProps 1 [''A'', ''B'', ''C''] None False 0), TimerFired 1,
                   StartOver] mounted) = []"
  using init_without_animation [of "exampleProps 1 [''A'', ''B'', ''C''] None False 0"
      "exampleProps 1 [''A'', ''B'', ''C''] None False 0" mounted
      "[Render (exampleProps 1 [''A'', ''B'', ''C''] None False 0), TimerFired 1, StartOver]"]
  by (simp add: carousel_defs)

text \<open>
  The claim as stated fails: when a component is mounted with three items and animation
  disabled, the window stays empty instead of becoming the rotation, and the observer is
  not called.
\<close>

theorem init_without_animation_counterexample:
  "copiedItems (run [Render (exampleProps 1 [''A'', ''B'', ''C''] None False 0)] mounted) = []
   \<and> rotation [''A'', ''B'', ''C''] 0 = [''A'', ''B'', ''C'']
   \<and> shown (run [Render (exampleProps 1 [''A'', ''B'', ''C''] None False 0)] mounted) = []"
  by (simp add: carousel_defs)

section \<open>Neither items nor a default item\<close>

text \<open>
  Claim C8, as amended. When the initializer runs with an empty item collection and no
  (truthy) default item, it does nothing beyond cancelling the pending timer and nulling
  the handle ref: there is no failing branch, the observer is not notified, no timer is
  armed, and the rotation window is left as it was; so is it by a render with such props,
  and the window is empty when the component is mounted with them.
\<close>

theorem init_without_items_or_default:
  assumes "items p = []" and "\<not> hasDefault p"
  shows "init p q st = cancelPending st
     \<and> copiedItems (init p q st) = copiedItems st
     \<and> shown (init p q st) = shown st
     \<and> animationTimeout (init p q st) = None
     \<and> timers (init p q st) = filter (\<lambda>t. Some (handle t) \<noteq> animationTimeout st) (timers st)
     \<and> copiedItems (Carousel p st) = copiedItems st
     \<and> shown (Carousel p st) = shown st
     \<and> set (timers (Carousel p st)) \<subseteq> set (timers st)
     \<and> copiedItems (Carousel p mounted) = []"
proof -
  have fall: "init p q' st' = cancelPending st'" for q' st'
    using assms by (simp add: init_falls_through)
  show ?thesis
    using Carousel_cancels_only [of p st, OF fall] Carousel_cancels_only [of p mounted, OF fall]
    by (simp add: fall cancelPending_fields) (simp add: mounted_def)
qed

text \<open>
  An instance: at the mount, and after a collection of three items.
\<close>

theorem init_without_items_or_default_witness:
  "items (exampleProps 2 [] None True 0) = [] \<and> \<not> hasDefault (exampleProps 2 [] None True 0)
   \<and> copiedItems (Carousel (exampleProps 2 [] None True 0) mounted) = []
   \<and> timers (Carousel (exampleProps 2 [] None True 0)
        (Carousel (exampleProps 1 [''A'', ''B'', ''C''] None True 0) mounted)) = []
   \<and> shown (Carousel (exampleProps 2 [] None True 0)
        (Carousel (exampleProps 1 [''A'', ''B'', ''C''] None True 0) mounted))
       = [(0, Some ''A'', Some 0)]"
  using init_without_items_or_default [of "exampleProps 2 [] None True 0"
      "exampleProps 2 [] None True 0" mounted]
    init_without_items_or_default [of "exampleProps 2 [] None True 0"
      "exampleProps 2 [] None True 0"
      "Carousel (exampleProps 1 [''A'', ''B'', ''C''] None True 0) mounted"]
  by (simp add: carousel_defs)

text \<open>
  The claim as stated fails when a non-empty collection is replaced by an empty one: the
  window keeps the three items of the previous collection.
\<close>

theorem stale_window_after_emptying:
  "items (exampleProps 2 [] None True 0) = [] \<and> defaultItem (exampleProps 2 [] None True 0) = None
   \<and> copiedItems (run [Render (exampleProps 1 [''A'', ''B'', ''C''] None True 0),
                        Render (exampleProps 2 [] None True 0)] mounted) = [''A'', ''B'', ''C'']"
  by (simp add: carousel_defs)

section \<open>Collections of at most one item\<close>

lemma rotation_singleton: "length xs = 1 \<Longrightarrow> rotation xs s = xs"
  by (cases xs) (simp_all add: rotation_rotate)

lemma fallbackOnly_idle: "timers st = [] \<Longrightarrow> animating st = [] \<Longrightarrow> fallbackOnly S st"
  by (simp add: fallbackOnly_def)

lemma fallbackOnly_upd:
  "fallbackOnly S (notify p x i st) = fallbackOnly S st"
  "fallbackOnly S (st\<lparr> copiedItems := w \<rparr>) = fallbackOnly S st"
  "fallbackOnly S (useCallbacks p st) = fallbackOnly S st"
  by (simp_all add: fallbackOnly_def notify_fields useCallbacks_fields)

lemma fallbackOnly_init:
  assumes "atMostOne st" "animating st = []" "length (items p) \<le> 1" "p \<in> S" "q \<in> S"
  shows "fallbackOnly S (init p q st)"
proof -
  have idle: "timers (cancelPending st) = []" "animating (cancelPending st) = []"
    using init_idle_after_cancel [OF assms(1,2)] by simp_all
  consider (placeholder) "items p = [] \<and> hasDefault p"
    | (fallback) "items p \<noteq> []" "hasDefault p" "isAnimationEnabled p" "isShowDefaultItemBefore st"
    | (normal) "items p \<noteq> []" "isAnimationEnabled p" "\<not> (hasDefault p \<and> isShowDefaultItemBefore st)"
    | (nothing) "\<not> (items p = [] \<and> hasDefault p)" "items p = [] \<or> \<not> isAnimationEnabled p"
    by blast
  then show ?thesis
  proof cases
    case placeholder
    then show ?thesis using idle by (simp add: init_def Let_def fallbackOnly_def)
  next
    case fallback
    from fallback(1) assms(3) have one: "length (items p) = 1"
      by (cases "items p") simp_all
    from fallback(2) obtain d where d: "defaultItem p = Some d"
      by (auto simp add: hasDefault_def split: option.splits)
    have window: "fallbackWindow p (d # rotation (items p) (startIndex p))"
      using fallback d one by (simp add: fallbackWindow_def rotation_singleton)
    then have ex: "\<exists>r \<in> S. fallbackWindow r (d # rotation (items p) (startIndex p))"
      using assms(4) by blast
    show ?thesis using fallback idle d assms(5) ex
      by (simp add: init_def Let_def cancelPending_fields startAnimation_def fallbackOnly_def
            fallbackTimer_def fallbackClosure_def)
  next
    case normal
    from normal(1) assms(3) have one: "length (items p) = 1"
      by (cases "items p") simp_all
    show ?thesis using idle one
      by (simp add: init_normal [OF normal] Let_def fallbackOnly_idle notify_fields)
  next
    case nothing
    then show ?thesis using idle by (simp add: init_falls_through fallbackOnly_idle)
  qed
qed

lemma fallbackOnly_clear: "fallbackOnly S st \<Longrightarrow> fallbackOnly S (clear st)"
  by (auto simp add: fallbackOnly_def clear_fields list_all_iff filter_empty_conv)

lemma fallbackOnly_timerFired:
  assumes "fallbackOnly S st"
  shows "fallbackOnly S (timerFired h st)"
proof (cases "filter (\<lambda>t. handle t = h) (timers st)")
  case Nil
  with assms show ?thesis by (simp add: timerFired_def)
next
  case (Cons t ts)
  then have "t \<in> set (filter (\<lambda>t. handle t = h) (timers st))" by simp
  then have t: "t \<in> set (timers st)" by simp
  then have ne: "timers st \<noteq> []" by auto
  show ?thesis using assms t ne Cons
    by (auto simp add: fallbackOnly_def timerFired_def beginAnimation_def clearTimeout_def
          list_all_iff fallbackTimer_def)
qed

lemma afterAnimating_fallback:
  assumes "fallbackClosure S c" "isShowDefaultItemBefore st"
  shows "timers (afterAnimating c st) = timers st"
    and "animating (afterAnimating c st) = animating st"
    and "\<not> isShowDefaultItemBefore (afterAnimating c st)"
proof -
  from assms(1) obtain p where p: "fallbackWindow p (lastItems c)"
    by (auto simp add: fallbackClosure_def)
  then obtain d x where c: "lastItems c = [d, x]"
    by (cases "items p") (auto simp add: fallbackWindow_def split: option.splits)
  have shifted: "js_pop (js_slice [d, x] 1 None @ js_slice [d, x] 0 (Some 1)) = [x]"
    by (simp add: js_pop_def js_slice_def js_bound_def)
  show "timers (afterAnimating c st) = timers st"
    and "animating (afterAnimating c st) = animating st"
    and "\<not> isShowDefaultItemBefore (afterAnimating c st)"
    using assms(2) c
    by (simp_all add: afterAnimating_def Let_def shifted notify_fields)
qed

lemma fallbackOnly_animationDone:
  assumes "atMostOne st" "fallbackOnly S st"
  shows "fallbackOnly S (animationDone k st)"
proof (cases "k < length (animating st)")
  case False
  with assms show ?thesis by (simp add: animationDone_def)
next
  case True
  note sole = atMostOne_sole_animation [OF assms(1) True]
  from True have "animating st ! k \<in> set (animating st)" by simp
  with assms(2) True have c: "fallbackClosure S (animating st ! k)"
    and flag: "isShowDefaultItemBefore st"
    by (auto simp add: fallbackOnly_def list_all_iff)
  let ?st = "st\<lparr> animating := [] \<rparr>"
  have "isShowDefaultItemBefore ?st" using flag by simp
  from afterAnimating_fallback(1,2) [OF c this] sole
  have "timers (afterAnimating (animating st ! k) ?st) = []"
    and "animating (afterAnimating (animating st ! k) ?st) = []"
    by simp_all
  then show ?thesis using True sole by (simp add: animationDone_def fallbackOnly_idle)
qed

lemma fallbackOnly_step:
  assumes "atMostOne st" "fallbackOnly S st" "scopesIn S st"
    and "runsInit e st \<longrightarrow> animating st = []"
    and "set (propsOf [e]) \<subseteq> S" and "\<forall>p \<in> S. length (items p) \<le> 1"
  shows "fallbackOnly S (step e st)"
proof (cases e)
  case (Render p)
  obtain h where h: "hooks (useCallbacks p st) = Some h" using useCallbacks_Some by blast
  from Render assms(5) have p: "p \<in> S" by simp
  have "scopesIn S (useCallbacks p st)" by (rule scopesIn_useCallbacks [OF assms(3) p])
  with h have q: "startAnimationScope h \<in> S" by (simp add: scopesIn_def)
  show ?thesis
  proof (cases "effectRuns p st")
    case True
    with Render assms(4) have idle: "animating (useCallbacks p st) = []"
      by (simp add: useCallbacks_fields)
    have one: "atMostOne (useCallbacks p st)" using assms(1) by (simp add: atMostOne_upd)
    show ?thesis using Render assms(6) p
      by (simp add: Carousel_effect [OF True h] fallbackOnly_init [OF one idle _ p q])
  next
    case False
    then show ?thesis using Render assms(2) by (simp add: Carousel_no_effect fallbackOnly_upd)
  qed
next
  case StartOver
  show ?thesis
  proof (cases "hooks st")
    case None
    with StartOver assms(2) show ?thesis by (simp add: onStartOver_def fallbackOnly_clear)
  next
    case (Some h)
    with assms(3) have p: "initScope h \<in> S" and q: "initStartAnimation h \<in> S"
      by (simp_all add: scopesIn_def)
    from StartOver assms(4) have idle: "animating (clear st) = []" by (simp add: clear_fields)
    show ?thesis using StartOver Some assms(6) p
      by (simp add: onStartOver_def
            fallbackOnly_init [OF atMostOne_clear [OF assms(1)] idle _ p q])
  qed
qed (use assms in \<open>simp_all add: fallbackOnly_timerFired fallbackOnly_animationDone fallbackOnly_clear\<close>)

lemma fallbackOnly_run:
  assumes "atMostOne st" "fallbackOnly S st" "scopesIn S st" "ordered es st"
    and "set (propsOf es) \<subseteq> S" and "\<forall>p \<in> S. length (items p) \<le> 1"
  shows "fallbackOnly S (run es st)"
  using assms
proof (induction es arbitrary: st)
  case Nil
  then show ?case by simp
next
  case (Cons e es)
  from Cons.prems(5) have e: "set (propsOf [e]) \<subseteq> S" and es: "set (propsOf es) \<subseteq> S"
    by (simp_all add: propsOf_Cons [of e es])
  from Cons.prems(4) have guard: "runsInit e st \<longrightarrow> animating st = []"
    and rest: "ordered es (step e st)" by simp_all
  show ?case
    using Cons.IH [OF atMostOne_step [OF Cons.prems(1) guard]
        fallbackOnly_step [OF Cons.prems(1,2,3) guard e Cons.prems(6)]
        scopesIn_step [OF Cons.prems(3) e] rest es Cons.prems(6)]
    by simp
qed

text \<open>
  Claim C5, as amended. Take a schedule all of whose renders have at most one item and in
  which the initializer never runs while an animation is still running. Then in every
  state it reaches at most one timer is pending, and a pending timer is the one of the
  transition from the default item to the single item: it has the forced delay of 100 ms,
  its window is the default item followed by the item of a render of the schedule with
  exactly one item, a truthy default item and animation enabled, and its closure belongs
  to a \<^verbatim>\<open>startAnimation\<close> of a render of the schedule with animation enabled. Such a
  timer is pending only while the default item is marked as showing; once the mark is
  cleared, which the completion of the transition does, nothing is pending or running.
\<close>

theorem singleton_timers_are_fallback:
  assumes "ordered es mounted"
    and "list_all (\<lambda>p. length (items p) \<le> 1) (propsOf es)"
  shows "length (timers (run es mounted)) \<le> 1
     \<and> (\<forall>t \<in> set (timers (run es mounted)). fallbackTimer (set (propsOf es)) t)
     \<and> (timers (run es mounted) \<noteq> [] \<longrightarrow> isShowDefaultItemBefore (run es mounted))
     \<and> (\<not> isShowDefaultItemBefore (run es mounted) \<longrightarrow>
           timers (run es mounted) = [] \<and> animating (run es mounted) = [])"
proof -
  let ?st = "run es mounted"
  let ?S = "set (propsOf es)"
  have one: "atMostOne ?st" by (rule atMostOne_run [OF atMostOne_mounted assms(1)])
  have start: "fallbackOnly ?S mounted" by (simp add: fallbackOnly_def mounted_def)
  have small: "\<forall>p \<in> ?S. length (items p) \<le> 1" using assms(2) by (simp add: list_all_iff)
  have only: "fallbackOnly ?S ?st"
    by (rule fallbackOnly_run [OF atMostOne_mounted start scopesIn_mounted assms(1) _ small])
      simp
  with atMostOne_length [OF one] show ?thesis
    by (auto simp add: fallbackOnly_def list_all_iff)
qed

text \<open>
  An instance: the default item shows, then one item arrives; the timer of the transition
  is pending, and nothing is once the transition has completed.
\<close>

theorem singleton_timers_are_fallback_witness:
  "ordered [Render (exampleProps 1 [] (Some ''D'') True 0),
            Render (exampleProps 2 [''A''] (Some ''D'') True 0)] mounted
   \<and> list_all (\<lambda>p. length (items p) \<le> 1)
        (propsOf [Render (exampleProps 1 [] (Some ''D'') True 0),
                  Render (exampleProps 2 [''A''] (Some ''D'') True 0)])
   \<and> map (\<lambda>t. (delay t, lastItems (callback t)))
        (timers (run [Render (exampleProps 1 [] (Some ''D'') True 0),
                      Render (exampleProps 2 [''A''] (Some ''D'') True 0)] mounted))
       = [(100, [''D'', ''A''])]
   \<and> isShowDefaultItemBefore (run [Render (exampleProps 1 [] (Some ''D'') True 0),
                      Render (exampleProps 2 [''A''] (Some ''D'') True 0)] mounted)
   \<and> timers (run [Render (exampleProps 1 [] (Some ''D'') True 0),
                      Render (exampleProps 2 [''A''] (Some ''D'') True 0),
                      TimerFired 1, AnimationDone 0] mounted) = []"
  using singleton_timers_are_fallback [of "[Render (exampleProps 1 [] (Some ''D'') True 0),
            Render (exampleProps 2 [''A''] (Some ''D'') True 0)]"]
  by (simp add: carousel_defs)

text \<open>
  The claim as stated fails: with one item arriving while the default item shows, the
  initializer arms the 100 ms timer over the window of the default item and the item. And
  when the collection is replaced while that transition is animating, the late completion
  arms an ordinary timer over a window of two elements.
\<close>

theorem single_item_arms_timer:
  "length (items (exampleProps 2 [''A''] (Some ''D'') True 0)) \<le> 1
   \<and> map (\<lambda>t. (delay t, lastItems (callback t)))
        (timers (run [Render (exampleProps 1 [] (Some ''D'') True 0),
                      Render (exampleProps 2 [''A''] (Some ''D'') True 0)] mounted))
     = [(100, [''D'', ''A''])]
   \<and> map (\<lambda>t. (delay t, lastItems (callback t)))
        (timers (run [Render (exampleProps 1 [] (Some ''D'') True 0),
                      Render (exampleProps 2 [''A''] (Some ''D'') True 0), TimerFired 1,
                      Render (exampleProps 3 [''B''] (Some ''D'') True 0), TimerFired 2,
                      AnimationDone 0, AnimationDone 0] mounted))
     = [(3000, [''B'', ''D''])]"
  by (simp add: carousel_defs)

section \<open>Restart\<close>




section \<open>Advances of a running rotation\<close>











section \<open>Counters delivered to the observer\<close>

text \<open>
  Claim C1. The claim asks for a counter within the collection at every notification.
  When a component is mounted with three items and start offset 5, the initializer
  notifies the observer with the third item and the counter 5, the start offset as
  supplied and not its remainder, although 5 is not below the length 3.
\<close>

theorem init_notifies_raw_start_index:
  "shown (run [Render (exampleProps 1 [''A'', ''B'', ''C''] None True 5)] mounted)
     = [(0, Some ''C'', Some 5)]
   \<and> \<not> (5 < int (length (items (exampleProps 1 [''A'', ''B'', ''C''] None True 5))))"
  by (simp add: carousel_defs)

text \<open>
  Claim C3. The claim asks that, after the transition from the default item, the next
  advance carries the counter \<open>(startIndex + 1) mod length\<close>. At three items, start
  offset 0 and a default item that was showing, the completion of the transition notifies
  the first item with counter 0 and re-arms the timer with counter 1, not with the
  decremented counter 0; the next advance notifies the second item with counter 2.
\<close>

theorem fallback_then_advance_counter:
  "shown (run [Render (exampleProps 1 [] (Some ''D'') True 0),
               Render (exampleProps 2 [''A'', ''B'', ''C''] (Some ''D'') True 0),
               TimerFired 1, AnimationDone 0, TimerFired 2, AnimationDone 0] mounted)
     = [(0, Some ''A'', Some 0), (0, Some ''B'', Some 2)]
   \<and> map (\<lambda>t. (lastItems (callback t), counter (callback t)))
        (timers (run [Render (exampleProps 1 [] (Some ''D'') True 0),
               Render (exampleProps 2 [''A'', ''B'', ''C''] (Some ''D'') True 0),
               TimerFired 1, AnimationDone 0] mounted))
     = [([''A'', ''B'', ''C''], Some 1)]"
  by (simp add: carousel_defs)

end
